theory Spec2Isabelle
  imports Main "HOL-Library.Sublist"
begin

section \<open>Workflow execution engine of the LangChain automation platform\<close>

text \<open>
  A shallow embedding of \<^verbatim>\<open>langchain-automation/app.py\<close>: the node and workflow
  dataclasses, the path builder \<^verbatim>\<open>WorkflowExecutor._build_execution_path\<close>, the node
  handlers, the execution loop of \<^verbatim>\<open>WorkflowExecutor.execute_workflow\<close> with its
  registry \<^verbatim>\<open>active_executions\<close>, and the status query of
  \<^verbatim>\<open>integration.py\<close>.
\<close>

subsection \<open>Data model\<close>

datatype NodeType = TRIGGER | ACTION | CONDITION | AI_AGENT | TRANSFORM | OUTPUT

datatype WorkflowStatus = DRAFT | ACTIVE | PAUSED | ERROR | COMPLETED

text \<open>
  Python values that travel through a workflow (trigger data, node configuration values,
  handler results): JSON-like data, with dictionaries as association lists keyed by strings.
\<close>

datatype pyval = PNone | PBool bool | PInt int | PStr string
  | PList "pyval list" | PDict "(string \<times> pyval) list"

text \<open>
  The dataclass \<^verbatim>\<open>WorkflowNode\<close>. The fields \<^verbatim>\<open>id\<close> and \<^verbatim>\<open>type\<close> are
  called \<open>node_id\<close> and \<open>node_type\<close>; \<^verbatim>\<open>__post_init__\<close> replaces a missing
  \<^verbatim>\<open>connections\<close> by the empty list, so the field is always a list.
\<close>

record WorkflowNode =
  node_id :: string
  node_type :: NodeType
  name :: string
  config :: "(string \<times> pyval) list"
  position :: "(string \<times> int) list"
  connections :: "string list"

text \<open>The dataclass \<^verbatim>\<open>Workflow\<close>; its fields carry the prefix \<open>wf_\<close>.\<close>

record Workflow =
  wf_id :: string
  wf_name :: string
  wf_description :: string
  wf_nodes :: "WorkflowNode list"
  wf_status :: WorkflowStatus
  wf_created_at :: nat
  wf_updated_at :: nat
  wf_created_by :: string
  wf_team_id :: string
  wf_trigger_config :: "(string \<times> pyval) list"

subsection \<open>Building the execution path\<close>

text \<open>
  \<^verbatim>\<open>next((n for n in nodes if n.id == node_id), None)\<close>: the first node of the list
  with the given id, if any.
\<close>

definition find_node :: "WorkflowNode list \<Rightarrow> string \<Rightarrow> WorkflowNode option" where
  "find_node nodes nid = find (\<lambda>n. node_id n = nid) nodes"

text \<open>
  \<^verbatim>\<open>_build_execution_path\<close> runs the local recursive function \<^verbatim>\<open>traverse\<close> over
  two mutable variables, the set \<^verbatim>\<open>visited\<close> and the list \<^verbatim>\<open>path\<close>. Here the
  pair of them is passed in and returned. An id that is not yet visited is added to both
  \<^emph>\<open>before\<close> its node is looked up; \<open>traverse_connections\<close> is the
  \<^verbatim>\<open>for connection in node.connections\<close> loop. The recursion is nested (the state
  of one call is the result of the call before), so it is defined with \<^theory_text>\<open>function\<close>
  and its termination is proved below. This is the recursion itself; the interpreter's
  bound on the nesting of calls is added to it in \<open>traverse_limited\<close>, which is what
  \<open>execute_workflow\<close> calls.
\<close>

function traverse ::
    "WorkflowNode list \<Rightarrow> string set \<times> string list \<Rightarrow> string \<Rightarrow> string set \<times> string list"
  and traverse_connections ::
    "WorkflowNode list \<Rightarrow> string set \<times> string list \<Rightarrow> string list \<Rightarrow> string set \<times> string list"
where
  "traverse nodes (visited, path) nid =
     (if nid \<in> visited then (visited, path)
      else (case find_node nodes nid of
              None \<Rightarrow> (insert nid visited, path @ [nid])
            | Some node \<Rightarrow>
                traverse_connections nodes (insert nid visited, path @ [nid]) (connections node)))"
| "traverse_connections nodes st [] = st"
| "traverse_connections nodes st (c # cs) =
     traverse_connections nodes (traverse nodes st c) cs"
  by pat_completeness auto

text \<open>Every id a recursive call can reach is the id it starts from or a successor id of some node.\<close>

definition all_connections :: "WorkflowNode list \<Rightarrow> string set" where
  "all_connections nodes = (\<Union>n \<in> set nodes. set (connections n))"

text \<open>
  The termination measure: the number of ids still unvisited, then the length of the rest of
  the successor list.
\<close>

definition traverse_measure ::
  "WorkflowNode list \<times> (string set \<times> string list) \<times> string +
   WorkflowNode list \<times> (string set \<times> string list) \<times> string list \<Rightarrow> nat \<times> nat" where
  "traverse_measure x = (case x of
      Inl (nodes, st, nid) \<Rightarrow> (card (insert nid (all_connections nodes) - fst st), 0)
    | Inr (nodes, st, cs) \<Rightarrow> (card ((set cs \<union> all_connections nodes) - fst st), Suc (length cs)))"

lemma traverse_grows_partial:
  "traverse_traverse_connections_dom (Inl (nodes, st, nid)) \<Longrightarrow> fst st \<subseteq> fst (traverse nodes st nid)"
  "traverse_traverse_connections_dom (Inr (nodes, st, cs)) \<Longrightarrow> fst st \<subseteq> fst (traverse_connections nodes st cs)"
proof (induction nodes st nid and nodes st cs rule: traverse_traverse_connections.pinduct)
  case (1 nodes visited path nid)
  then show ?case
    by (auto simp: traverse.psimps split: option.splits)
next
  case (2 nodes st)
  then show ?case by (simp add: traverse_connections.psimps)
next
  case (3 nodes st c cs)
  then show ?case by (auto simp: traverse_connections.psimps)
qed

lemma find_node_Some: "find_node nodes nid = Some node \<Longrightarrow> node \<in> set nodes \<and> node_id node = nid"
  by (auto simp: find_node_def find_Some_iff)

lemma find_node_connections:
  "find_node nodes nid = Some node \<Longrightarrow> set (connections node) \<subseteq> all_connections nodes"
  by (auto simp: all_connections_def dest: find_node_Some)

lemma finite_all_connections: "finite (all_connections nodes)"
  by (simp add: all_connections_def)

lemma traverse_total: "All traverse_traverse_connections_dom"
proof (rule "traverse_traverse_connections.termination"
    [of "inv_image (less_than <*lex*> less_than) traverse_measure"])
  show "wf (inv_image (less_than <*lex*> less_than) traverse_measure)"
    by (intro wf_inv_image wf_lex_prod wf_less_than)
next
  fix nodes :: "WorkflowNode list" and visited :: "string set" and path :: "string list"
    and nid node
  assume new: "nid \<notin> visited" and found: "find_node nodes nid = Some node"
  let ?U = "all_connections nodes"
  have "set (connections node) \<union> ?U = ?U"
    using find_node_connections [OF found] by auto
  moreover have "?U - insert nid visited \<subset> insert nid ?U - visited"
    using new by auto
  then have "card (?U - insert nid visited) < card (insert nid ?U - visited)"
    by (intro psubset_card_mono) (simp_all add: finite_all_connections)
  ultimately show "(Inr (nodes, (insert nid visited, path @ [nid]), connections node),
         Inl (nodes, (visited, path), nid))
        \<in> inv_image (less_than <*lex*> less_than) traverse_measure"
    by (simp add: traverse_measure_def)
next
  fix nodes :: "WorkflowNode list" and st :: "string set \<times> string list" and c cs
  let ?U = "all_connections nodes"
  have "card (insert c ?U - fst st) \<le> card ((set (c # cs) \<union> ?U) - fst st)"
    by (intro card_mono) (auto simp: finite_all_connections)
  then show "(Inl (nodes, st, c), Inr (nodes, st, c # cs))
        \<in> inv_image (less_than <*lex*> less_than) traverse_measure"
    by (auto simp: traverse_measure_def)
next
  fix nodes :: "WorkflowNode list" and st :: "string set \<times> string list" and c cs
  assume "traverse_traverse_connections_dom (Inl (nodes, st, c))"
  then have grows: "fst st \<subseteq> fst (traverse nodes st c)"
    by (rule traverse_grows_partial)
  let ?U = "all_connections nodes"
  have "card ((set cs \<union> ?U) - fst (traverse nodes st c)) \<le> card ((set (c # cs) \<union> ?U) - fst st)"
    using grows by (intro card_mono) (auto simp: finite_all_connections)
  then show "(Inr (nodes, traverse nodes st c, cs), Inr (nodes, st, c # cs))
        \<in> inv_image (less_than <*lex*> less_than) traverse_measure"
    by (auto simp: traverse_measure_def)
qed


termination traverse
  by (rule traverse_total)

definition build_execution_path :: "WorkflowNode list \<Rightarrow> string \<Rightarrow> string list" where
  "build_execution_path nodes start_node_id = snd (traverse nodes ({}, []) start_node_id)"

declare traverse.simps [simp del]

subsection \<open>Exceptions\<close>

text \<open>
  What a call can raise, with its class name and \<^verbatim>\<open>str(e)\<close>: \<open>PyError\<close> is an
  instance of the class \<^verbatim>\<open>Exception\<close>, which the handlers
  \<^verbatim>\<open>except Exception\<close> of the module catch; \<open>PyBaseException\<close> is an exception
  outside that class (\<^verbatim>\<open>SystemExit\<close>, \<^verbatim>\<open>KeyboardInterrupt\<close>, the cancellation of
  an asyncio call), which they let through.
\<close>

datatype exn =
    PyError (exn_class: string) (exn_str: string)
  | PyBaseException (exn_class: string) (exn_str: string)

fun is_exception :: "exn \<Rightarrow> bool" where
  "is_exception (PyError c m) = True"
| "is_exception (PyBaseException c m) = False"

subsection \<open>The path builder under the recursion limit\<close>

text \<open>
  The interpreter bounds the nesting of calls, and \<^verbatim>\<open>traverse\<close> calls itself once for
  every node on the way down: the call that goes beyond the bound raises
  \<^verbatim>\<open>RecursionError\<close>, an \<^verbatim>\<open>Exception\<close>, and nothing is returned.
\<close>

definition recursion_error :: exn where
  "recursion_error = PyError ''RecursionError'' ''maximum recursion depth exceeded''"

text \<open>
  \<^verbatim>\<open>traverse\<close> with \<open>k\<close> frames left: the call itself takes one frame, and the
  generator expression of the lookup takes one more while it runs (it is not reached for
  an id that is already visited). Where nothing is raised the result is that of
  \<open>traverse\<close> (\<open>traverse_limited_refines\<close> below).
\<close>

fun traverse_limited ::
    "nat \<Rightarrow> WorkflowNode list \<Rightarrow> string set \<times> string list \<Rightarrow> string \<Rightarrow>
     exn + string set \<times> string list"
  and traverse_connections_limited ::
    "nat \<Rightarrow> WorkflowNode list \<Rightarrow> string set \<times> string list \<Rightarrow> string list \<Rightarrow>
     exn + string set \<times> string list"
where
  "traverse_limited 0 nodes st nid = Inl recursion_error"
| "traverse_limited (Suc k) nodes (visited, path) nid =
     (if nid \<in> visited then Inr (visited, path)
      else if k = 0 then Inl recursion_error
      else (case find_node nodes nid of
              None \<Rightarrow> Inr (insert nid visited, path @ [nid])
            | Some node \<Rightarrow>
                traverse_connections_limited k nodes (insert nid visited, path @ [nid])
                  (connections node)))"
| "traverse_connections_limited k nodes st [] = Inr st"
| "traverse_connections_limited k nodes st (c # cs) =
     (case traverse_limited k nodes st c of
        Inl e \<Rightarrow> Inl e
      | Inr st' \<Rightarrow> traverse_connections_limited k nodes st' cs)"

text \<open>\<^verbatim>\<open>_build_execution_path\<close> as the interpreter runs it, with \<open>k\<close> frames left.\<close>

definition build_execution_path_limited ::
  "nat \<Rightarrow> WorkflowNode list \<Rightarrow> string \<Rightarrow> exn + string list" where
  "build_execution_path_limited k nodes start_node_id =
     (case traverse_limited k nodes ({}, []) start_node_id of
        Inl e \<Rightarrow> Inl e
      | Inr (visited, path) \<Rightarrow> Inr path)"

subsection \<open>Python values and the outside world\<close>

text \<open>\<^verbatim>\<open>d.get(k, dflt)\<close> on a dictionary.\<close>

definition dict_get :: "(string \<times> pyval) list \<Rightarrow> string \<Rightarrow> pyval \<Rightarrow> pyval" where
  "dict_get d k dflt = (case map_of d k of None \<Rightarrow> dflt | Some v \<Rightarrow> v)"

text \<open>\<^verbatim>\<open>bool(v)\<close>.\<close>

fun truthy :: "pyval \<Rightarrow> bool" where
  "truthy PNone = False"
| "truthy (PBool b) = b"
| "truthy (PInt i) = (i \<noteq> 0)"
| "truthy (PStr s) = (s \<noteq> [])"
| "truthy (PList xs) = (xs \<noteq> [])"
| "truthy (PDict d) = (d \<noteq> [])"

text \<open>
  What the handlers call outside this module, as functions over a state \<open>'w\<close> of the
  outside world: \<^verbatim>\<open>uuid.uuid4\<close>, \<^verbatim>\<open>datetime.utcnow\<close>, the LangChain agent
  (prompt template, data, whether a callback handler is attached), the HTTP request of an
  action (method, url, headers, body; the result is the response's JSON and status code),
  Python's \<^verbatim>\<open>eval\<close> of a script with \<^verbatim>\<open>data\<close> bound (source, data), the LLM
  chain of a transform (prompt template, data), \<^verbatim>\<open>json.loads\<close>, the formatting of
  an output message (template, data), \<^verbatim>\<open>MattermostTool._send_message\<close> (which
  catches its own failures), the webhook POST of an output node, and
  \<^verbatim>\<open>MattermostCallbackHandler.send_message\<close>. A call that raises returns \<open>Inl\<close>;
  the two message posts catch their own \<^verbatim>\<open>Exception\<close>s and are taken to return.
  \<open>recursion_limit\<close> is the number of frames the interpreter has left inside
  \<^verbatim>\<open>_build_execution_path\<close>, where \<^verbatim>\<open>traverse\<close> is first called.
\<close>

record 'w capabilities =
  recursion_limit :: nat
  uuid4 :: "'w \<Rightarrow> string \<times> 'w"
  utcnow :: "'w \<Rightarrow> nat"
  agent_run :: "pyval \<Rightarrow> pyval \<Rightarrow> bool \<Rightarrow> 'w \<Rightarrow> (exn + pyval) \<times> 'w"
  session_request :: "pyval \<Rightarrow> pyval \<Rightarrow> pyval \<Rightarrow> pyval \<Rightarrow> 'w \<Rightarrow> (exn + pyval \<times> pyval) \<times> 'w"
  py_eval :: "pyval \<Rightarrow> pyval \<Rightarrow> 'w \<Rightarrow> (exn + pyval) \<times> 'w"
  chain_run :: "pyval \<Rightarrow> pyval \<Rightarrow> 'w \<Rightarrow> (exn + pyval) \<times> 'w"
  json_loads :: "pyval \<Rightarrow> exn + pyval"
  format_message :: "pyval \<Rightarrow> pyval \<Rightarrow> exn + pyval"
  tool_send_message :: "string \<Rightarrow> pyval \<Rightarrow> 'w \<Rightarrow> 'w"
  session_post :: "pyval \<Rightarrow> pyval \<Rightarrow> 'w \<Rightarrow> (exn + unit) \<times> 'w"
  callback_send_message :: "string \<Rightarrow> string \<Rightarrow> 'w \<Rightarrow> 'w"

text \<open>\<^verbatim>\<open>channel_id: str = None\<close> and its truth value (\<^verbatim>\<open>if channel_id\<close>).\<close>

definition channel_given :: "string option \<Rightarrow> bool" where
  "channel_given channel_id = (case channel_id of None \<Rightarrow> False | Some c \<Rightarrow> c \<noteq> [])"

definition channel_str :: "string option \<Rightarrow> string" where
  "channel_str channel_id = (case channel_id of None \<Rightarrow> [] | Some c \<Rightarrow> c)"

subsection \<open>Node handlers\<close>

text \<open>\<^verbatim>\<open>_execute_ai_agent_node\<close>: what the agent raises is not caught here.\<close>

definition execute_ai_agent_node ::
  "'w capabilities \<Rightarrow> WorkflowNode \<Rightarrow> pyval \<Rightarrow> bool \<Rightarrow> 'w \<Rightarrow> (exn + pyval) \<times> 'w" where
  "execute_ai_agent_node env node data has_callback w =
     (case agent_run env (dict_get (config node) ''prompt'' (PStr ''Process this data: {input}''))
             data has_callback w of
        (Inl e, w') \<Rightarrow> (Inl e, w')
      | (Inr result, w') \<Rightarrow>
          (Inr (PDict [(''ai_result'', result), (''original_data'', data)]), w'))"

text \<open>
  \<^verbatim>\<open>_execute_action_node\<close>: both subtypes catch the \<^verbatim>\<open>Exception\<close>s of their
  \<^verbatim>\<open>try\<close> block and return \<^verbatim>\<open>{'error': str(e)}\<close>, and let through what is
  not an \<^verbatim>\<open>Exception\<close>; any other \<^verbatim>\<open>action_type\<close> returns the data unchanged.
\<close>

definition execute_action_node ::
  "'w capabilities \<Rightarrow> WorkflowNode \<Rightarrow> pyval \<Rightarrow> 'w \<Rightarrow> (exn + pyval) \<times> 'w" where
  "execute_action_node env node data w =
     (let action_type = dict_get (config node) ''action_type'' PNone in
      if action_type = PStr ''http_request'' then
        (let url = dict_get (config node) ''url'' PNone;
             method = dict_get (config node) ''method'' (PStr ''GET'');
             headers = dict_get (config node) ''headers'' (PDict [])
         in case session_request env method url headers data w of
              (Inr (result, status_code), w') \<Rightarrow>
                (Inr (PDict [(''http_result'', result), (''status_code'', status_code)]), w')
            | (Inl e, w') \<Rightarrow>
                if is_exception e then (Inr (PDict [(''error'', PStr (exn_str e))]), w')
                else (Inl e, w'))
      else if action_type = PStr ''data_transform'' then
        (let transform_script = dict_get (config node) ''transform_script'' (PStr ''return data'')
         in case py_eval env transform_script data w of
              (Inr result, w') \<Rightarrow> (Inr result, w')
            | (Inl e, w') \<Rightarrow>
                if is_exception e then (Inr (PDict [(''error'', PStr (exn_str e))]), w')
                else (Inl e, w'))
      else (Inr data, w))"

text \<open>
  \<^verbatim>\<open>_execute_condition_node\<close>: \<^verbatim>\<open>bool(result)\<close>, and \<^verbatim>\<open>False\<close> when the
  evaluation raises an \<^verbatim>\<open>Exception\<close>; what is not an \<^verbatim>\<open>Exception\<close> (the
  \<^verbatim>\<open>SystemExit\<close> of a condition \<^verbatim>\<open>exit()\<close>) is let through.
\<close>

definition execute_condition_node ::
  "'w capabilities \<Rightarrow> WorkflowNode \<Rightarrow> pyval \<Rightarrow> 'w \<Rightarrow> (exn + bool) \<times> 'w" where
  "execute_condition_node env node data w =
     (let condition = dict_get (config node) ''condition'' (PStr ''True'')
      in case py_eval env condition data w of
           (Inr result, w') \<Rightarrow> (Inr (truthy result), w')
         | (Inl e, w') \<Rightarrow> if is_exception e then (Inr False, w') else (Inl e, w'))"

text \<open>
  \<^verbatim>\<open>_execute_transform_node\<close>: what the chain raises is not caught; a result that
  does not parse as JSON is returned as text (the bare \<^verbatim>\<open>except:\<close> catches
  everything).
\<close>

definition execute_transform_node ::
  "'w capabilities \<Rightarrow> WorkflowNode \<Rightarrow> pyval \<Rightarrow> 'w \<Rightarrow> (exn + pyval) \<times> 'w" where
  "execute_transform_node env node data w =
     (case chain_run env (dict_get (config node) ''prompt'' (PStr ''Transform this data: {input}''))
             data w of
        (Inl e, w') \<Rightarrow> (Inl e, w')
      | (Inr result, w') \<Rightarrow>
          (case json_loads env result of
             Inr parsed_result \<Rightarrow> (Inr parsed_result, w')
           | Inl e \<Rightarrow>
               (Inr (PDict [(''transformed_data'', result), (''original_data'', data)]), w')))"

text \<open>\<^verbatim>\<open>_execute_output_node\<close> returns nothing; its failures are not caught.\<close>

definition execute_output_node ::
  "'w capabilities \<Rightarrow> WorkflowNode \<Rightarrow> pyval \<Rightarrow> string option \<Rightarrow> 'w \<Rightarrow> (exn + unit) \<times> 'w" where
  "execute_output_node env node data channel_id w =
     (let output_type = dict_get (config node) ''output_type'' (PStr ''mattermost'') in
      if output_type = PStr ''mattermost'' \<and> channel_given channel_id then
        (case format_message env
                (dict_get (config node) ''message_template'' (PStr ''Workflow completed: {data}''))
                data of
           Inl e \<Rightarrow> (Inl e, w)
         | Inr formatted_message \<Rightarrow>
             (Inr (), tool_send_message env (channel_str channel_id) formatted_message w))
      else if output_type = PStr ''webhook'' then
        (let webhook_url = dict_get (config node) ''webhook_url'' PNone in
         if truthy webhook_url then session_post env webhook_url data w else (Inr (), w))
      else (Inr (), w))"

subsection \<open>The execution loop\<close>

text \<open>
  The body of the loop for a node that was found: the \<^verbatim>\<open>if/elif\<close> chain on the node
  type. The result is the exception that leaves the loop, or whether the loop goes on
  (\<^verbatim>\<open>False\<close> is the \<^verbatim>\<open>break\<close> of a condition) with the new value of
  \<^verbatim>\<open>current_data\<close>. A trigger node matches no branch.
\<close>

definition dispatch_node ::
  "'w capabilities \<Rightarrow> string option \<Rightarrow> WorkflowNode \<Rightarrow> pyval \<Rightarrow> 'w \<Rightarrow> (exn + bool \<times> pyval) \<times> 'w" where
  "dispatch_node env channel_id node current_data w =
     (if node_type node = AI_AGENT then
        (case execute_ai_agent_node env node current_data (channel_given channel_id) w of
           (Inl e, w') \<Rightarrow> (Inl e, w')
         | (Inr d, w') \<Rightarrow> (Inr (True, d), w'))
      else if node_type node = ACTION then
        (case execute_action_node env node current_data w of
           (Inl e, w') \<Rightarrow> (Inl e, w')
         | (Inr d, w') \<Rightarrow> (Inr (True, d), w'))
      else if node_type node = CONDITION then
        (case execute_condition_node env node current_data w of
           (Inl e, w') \<Rightarrow> (Inl e, w')
         | (Inr should_continue, w') \<Rightarrow> (Inr (should_continue, current_data), w'))
      else if node_type node = TRANSFORM then
        (case execute_transform_node env node current_data w of
           (Inl e, w') \<Rightarrow> (Inl e, w')
         | (Inr d, w') \<Rightarrow> (Inr (True, d), w'))
      else if node_type node = OUTPUT then
        (case execute_output_node env node current_data channel_id w of
           (Inl e, w') \<Rightarrow> (Inl e, w')
         | (Inr u, w') \<Rightarrow> (Inr (True, current_data), w'))
      else (Inr (True, current_data), w))"

text \<open>How the loop over the path ends.\<close>

datatype outcome = Finished | Halted | Raised exn

text \<open>
  The loop \<^verbatim>\<open>for node_id in execution_path\<close> over the state \<open>(current_data, w, tr)\<close>.
  The trace \<open>tr\<close> has one entry for every node a handler was chosen for (the nodes of the
  \<^verbatim>\<open>Executing node\<close> log line): the node id, \<^verbatim>\<open>current_data\<close> before the
  handler and \<^verbatim>\<open>current_data\<close> after it. An id without a node is skipped
  (\<^verbatim>\<open>continue\<close>).
\<close>

fun run_nodes ::
  "'w capabilities \<Rightarrow> WorkflowNode list \<Rightarrow> string option \<Rightarrow> string list \<Rightarrow>
   pyval \<times> 'w \<times> (string \<times> pyval \<times> pyval) list \<Rightarrow>
   outcome \<times> pyval \<times> 'w \<times> (string \<times> pyval \<times> pyval) list" where
  "run_nodes env nodes channel_id [] s = (Finished, s)"
| "run_nodes env nodes channel_id (nid # rest) (current_data, w, tr) =
     (case find_node nodes nid of
        None \<Rightarrow> run_nodes env nodes channel_id rest (current_data, w, tr)
      | Some node \<Rightarrow>
          (case dispatch_node env channel_id node current_data w of
             (Inl e, w') \<Rightarrow> (Raised e, current_data, w', tr @ [(nid, current_data, current_data)])
           | (Inr (should_continue, d), w') \<Rightarrow>
               if should_continue
               then run_nodes env nodes channel_id rest (d, w', tr @ [(nid, current_data, d)])
               else (Halted, d, w', tr @ [(nid, current_data, d)])))"

subsection \<open>The registry and \<^verbatim>\<open>execute_workflow\<close>\<close>

text \<open>
  An entry of \<^verbatim>\<open>active_executions\<close>, a dictionary with the keys
  \<^verbatim>\<open>workflow_id\<close>, \<^verbatim>\<open>status\<close>, \<^verbatim>\<open>started_at\<close> and
  \<^verbatim>\<open>channel_id\<close> (here the fields with the prefix \<open>exec_\<close>); the keys
  \<^verbatim>\<open>completed_at\<close> and \<^verbatim>\<open>error\<close> are absent until they are assigned. The
  registry itself is a dictionary from execution ids to entries.
\<close>

record ExecutionInfo =
  exec_workflow_id :: string
  exec_status :: string
  exec_started_at :: nat
  exec_channel_id :: "string option"
  exec_completed_at :: "nat option"
  exec_error :: "string option"

text \<open>
  An assignment \<^verbatim>\<open>self.active_executions[execution_id][key] = value\<close>. The entry is
  always there: it is registered at the start of the same call.
\<close>

definition update_execution ::
  "(string \<rightharpoonup> ExecutionInfo) \<Rightarrow> string \<Rightarrow> (ExecutionInfo \<Rightarrow> ExecutionInfo) \<Rightarrow>
   (string \<rightharpoonup> ExecutionInfo)" where
  "update_execution execs execution_id f =
     (case execs execution_id of None \<Rightarrow> execs | Some r \<Rightarrow> execs(execution_id \<mapsto> f r))"

text \<open>The statement that stores the execution info, with status \<^verbatim>\<open>running\<close>.\<close>

definition register_execution ::
  "'w capabilities \<Rightarrow> (string \<rightharpoonup> ExecutionInfo) \<Rightarrow> Workflow \<Rightarrow> string option \<Rightarrow> string \<Rightarrow> 'w \<Rightarrow>
   (string \<rightharpoonup> ExecutionInfo)" where
  "register_execution env execs workflow channel_id execution_id w =
     execs(execution_id \<mapsto>
       \<lparr>exec_workflow_id = wf_id workflow, exec_status = ''running'',
        exec_started_at = utcnow env w, exec_channel_id = channel_id,
        exec_completed_at = None, exec_error = None\<rparr>)"

text \<open>
  The handler \<^verbatim>\<open>except Exception as e\<close> of \<^verbatim>\<open>execute_workflow\<close>: the entry gets
  the status \<^verbatim>\<open>error\<close> and the message, the channel is told if there is one, and the
  exception is raised again.
\<close>

definition fail_execution ::
  "'w capabilities \<Rightarrow> (string \<rightharpoonup> ExecutionInfo) \<Rightarrow> string \<Rightarrow> string option \<Rightarrow> exn \<Rightarrow> 'w \<Rightarrow>
   (string \<times> pyval \<times> pyval) list \<Rightarrow>
   (exn + string) \<times> (string \<rightharpoonup> ExecutionInfo) \<times> 'w \<times> (string \<times> pyval \<times> pyval) list" where
  "fail_execution env execs execution_id channel_id e w tr =
     (Inl e,
      update_execution execs execution_id
        (\<lambda>r. r\<lparr>exec_status := ''error'', exec_error := Some (exn_str e)\<rparr>),
      (if channel_given channel_id
       then callback_send_message env (channel_str channel_id)
              (''Workflow execution failed: '' @ exn_str e) w
       else w),
      tr)"

text \<open>
  The end of the \<^verbatim>\<open>try\<close> block, reached when the loop is over or was left by
  \<^verbatim>\<open>break\<close>: the entry gets the status \<^verbatim>\<open>completed\<close> and the completion
  time, and the execution id is returned.
\<close>

definition complete_execution ::
  "'w capabilities \<Rightarrow> (string \<rightharpoonup> ExecutionInfo) \<Rightarrow> string \<Rightarrow> 'w \<Rightarrow>
   (string \<times> pyval \<times> pyval) list \<Rightarrow>
   (exn + string) \<times> (string \<rightharpoonup> ExecutionInfo) \<times> 'w \<times> (string \<times> pyval \<times> pyval) list" where
  "complete_execution env execs execution_id w tr =
     (Inr execution_id,
      update_execution execs execution_id
        (\<lambda>r. r\<lparr>exec_status := ''completed'', exec_completed_at := Some (utcnow env w)\<rparr>),
      w, tr)"

text \<open>
  \<^verbatim>\<open>execute_workflow\<close>. The result is the raised exception or the execution id, with
  the registry and the world after the call, and the trace of the loop. Everything after
  the registration is inside the \<^verbatim>\<open>try\<close> block, whose handler
  \<^verbatim>\<open>except Exception\<close> takes the missing trigger, the \<^verbatim>\<open>RecursionError\<close> of the
  path builder and the \<^verbatim>\<open>Exception\<close>s that leave the loop; what is not an
  \<^verbatim>\<open>Exception\<close> passes the handler by, and the entry keeps the status
  \<^verbatim>\<open>running\<close>.
\<close>

definition execute_workflow ::
  "'w capabilities \<Rightarrow> (string \<rightharpoonup> ExecutionInfo) \<Rightarrow> Workflow \<Rightarrow> pyval \<Rightarrow> string option \<Rightarrow> 'w \<Rightarrow>
   (exn + string) \<times> (string \<rightharpoonup> ExecutionInfo) \<times> 'w \<times> (string \<times> pyval \<times> pyval) list" where
  "execute_workflow env execs workflow trigger_data channel_id w =
     (case uuid4 env w of
        (execution_id, w1) \<Rightarrow>
          (let execs1 = register_execution env execs workflow channel_id execution_id w1 in
           case find (\<lambda>node. node_type node = TRIGGER) (wf_nodes workflow) of
             None \<Rightarrow>
               fail_execution env execs1 execution_id channel_id
                 (PyError ''ValueError'' ''No trigger node found in workflow'') w1 []
           | Some trigger_node \<Rightarrow>
               (case build_execution_path_limited (recursion_limit env) (wf_nodes workflow)
                       (node_id trigger_node) of
                  Inl e \<Rightarrow> fail_execution env execs1 execution_id channel_id e w1 []
                | Inr execution_path \<Rightarrow>
                    (case run_nodes env (wf_nodes workflow) channel_id execution_path
                            (trigger_data, w1, []) of
                       (Raised e, d, w2, tr) \<Rightarrow>
                         if is_exception e
                         then fail_execution env execs1 execution_id channel_id e w2 tr
                         else (Inl e, execs1, w2, tr)
                     | (Finished, d, w2, tr) \<Rightarrow>
                         complete_execution env execs1 execution_id w2 tr
                     | (Halted, d, w2, tr) \<Rightarrow>
                         complete_execution env execs1 execution_id w2 tr))))"

subsection \<open>Status queries and the life of the registry\<close>

text \<open>
  \<^verbatim>\<open>WorkflowBotCommands._workflow_status\<close> of \<^verbatim>\<open>integration.py\<close>, with the
  fields its answer is formatted from: the completion time is shown for a completed
  execution, the error message for a failed one.
\<close>

datatype status_response =
    SystemStatus nat
  | ExecutionStatus string string nat string "nat option" "string option"
  | ExecutionNotFound string

definition workflow_status :: "(string \<rightharpoonup> ExecutionInfo) \<Rightarrow> string list \<Rightarrow> status_response" where
  "workflow_status execs args =
     (case args of
        [] \<Rightarrow> SystemStatus (card (dom execs))
      | execution_id # _ \<Rightarrow>
          (case execs execution_id of
             Some execution \<Rightarrow>
               ExecutionStatus execution_id (exec_status execution) (exec_started_at execution)
                 (exec_workflow_id execution)
                 (if exec_status execution = ''completed'' then exec_completed_at execution else None)
                 (if exec_status execution = ''error'' then exec_error execution else None)
           | None \<Rightarrow> ExecutionNotFound execution_id))"

text \<open>
  The operations on the executor over the life of the process: runs of
  \<^verbatim>\<open>execute_workflow\<close> (whose callers catch the \<^verbatim>\<open>Exception\<close> it raises) and
  status queries, one after the other.
\<close>

datatype request = Execute Workflow pyval "string option" | Status "string list"

fun serve ::
  "'w capabilities \<Rightarrow> (string \<rightharpoonup> ExecutionInfo) \<Rightarrow> request list \<Rightarrow> 'w \<Rightarrow>
   (string \<rightharpoonup> ExecutionInfo) \<times> 'w" where
  "serve env execs [] w = (execs, w)"
| "serve env execs (Execute workflow trigger_data channel_id # reqs) w =
     (case execute_workflow env execs workflow trigger_data channel_id w of
        (result, execs', w', tr) \<Rightarrow> serve env execs' reqs w')"
| "serve env execs (Status args # reqs) w = serve env execs reqs w"

text \<open>The execution ids that \<^verbatim>\<open>uuid4\<close> hands out while the requests are served.\<close>

fun issued_ids ::
  "'w capabilities \<Rightarrow> (string \<rightharpoonup> ExecutionInfo) \<Rightarrow> request list \<Rightarrow> 'w \<Rightarrow> string list" where
  "issued_ids env execs [] w = []"
| "issued_ids env execs (Execute workflow trigger_data channel_id # reqs) w =
     (case execute_workflow env execs workflow trigger_data channel_id w of
        (result, execs', w', tr) \<Rightarrow> fst (uuid4 env w) # issued_ids env execs' reqs w')"
| "issued_ids env execs (Status args # reqs) w = issued_ids env execs reqs w"

subsection \<open>Example graphs and the order of a path\<close>

text \<open>A node with the given id, type and successor list, and nothing else of interest.\<close>

definition example_node :: "string \<Rightarrow> NodeType \<Rightarrow> string list \<Rightarrow> WorkflowNode" where
  "example_node i t cs =
     \<lparr>node_id = i, node_type = t, name = i, config = [], position = [], connections = cs\<rparr>"

text \<open>The cycle \<open>A \<rightarrow> B \<rightarrow> A\<close>.\<close>

definition cyclic_nodes :: "WorkflowNode list" where
  "cyclic_nodes = [example_node ''A'' TRIGGER [''B''], example_node ''B'' ACTION [''A'']]"

text \<open>A node whose only successor id \<open>X\<close> matches no node.\<close>

definition dangling_nodes :: "WorkflowNode list" where
  "dangling_nodes = [example_node ''A'' TRIGGER [''X'']]"

text \<open>
  \<open>T\<close> has the successors \<open>[A, B]\<close> and \<open>A\<close> has the successors \<open>[B, C]\<close>:
  \<open>B\<close> is reached through \<open>A\<close> before \<open>T\<close> gets to it.
\<close>

definition shared_successor_nodes :: "WorkflowNode list" where
  "shared_successor_nodes =
     [example_node ''T'' TRIGGER [''A'', ''B''], example_node ''A'' ACTION [''B'', ''C''],
      example_node ''B'' ACTION [], example_node ''C'' OUTPUT []]"

text \<open>
  A chain of \<open>n\<close> nodes, a trigger first, each with the next id as its only successor;
  the successor of the last node has no node.
\<close>

definition chain_id :: "nat \<Rightarrow> string" where
  "chain_id i = replicate (Suc i) CHR ''n''"

definition chain_node :: "nat \<Rightarrow> WorkflowNode" where
  "chain_node i =
     example_node (chain_id i) (if i = 0 then TRIGGER else ACTION) [chain_id (Suc i)]"

definition chain_nodes :: "nat \<Rightarrow> WorkflowNode list" where
  "chain_nodes n = map chain_node [0..<n]"

text \<open>\<open>y\<close> occurs in \<open>xs\<close> somewhere after the first occurrence of \<open>x\<close>.\<close>

definition precedes :: "'a \<Rightarrow> 'a \<Rightarrow> 'a list \<Rightarrow> bool" where
  "precedes x y xs = (y \<in> set (drop 1 (dropWhile (\<lambda>z. z \<noteq> x) xs)))"

subsection \<open>Traces of the execution loop\<close>



subsection \<open>An example world and example workflows\<close>

text \<open>
  A world that counts the calls made to it. It has 1000 frames left for the path builder,
  its execution ids get longer with every call, every HTTP request fails to connect,
  \<^verbatim>\<open>eval\<close> knows the scripts \<^verbatim>\<open>True\<close>, \<^verbatim>\<open>False\<close> and \<^verbatim>\<open>1/0\<close>, leaves by
  \<^verbatim>\<open>SystemExit\<close> on \<^verbatim>\<open>exit()\<close>, rejects the statement \<^verbatim>\<open>return data\<close> as Python
  does, and wraps other scripts around the data.
\<close>

definition example_eval :: "pyval \<Rightarrow> pyval \<Rightarrow> exn + pyval" where
  "example_eval source data =
     (if source = PStr ''True'' then Inr (PBool True)
      else if source = PStr ''False'' then Inr (PBool False)
      else if source = PStr ''1/0'' then Inl (PyError ''ZeroDivisionError'' ''division by zero'')
      else if source = PStr ''exit()'' then Inl (PyBaseException ''SystemExit'' ''None'')
      else if source = PStr ''return data''
        then Inl (PyError ''SyntaxError'' ''invalid syntax (<string>, line 1)'')
      else Inr (PList [source, data]))"

definition example_world :: "nat capabilities" where
  "example_world =
     \<lparr>recursion_limit = 1000,
      uuid4 = (\<lambda>w. (''run-'' @ replicate (Suc w) CHR ''1'', Suc w)),
      utcnow = (\<lambda>w. w),
      agent_run = (\<lambda>prompt data has_callback w. (Inr (PStr ''done''), Suc w)),
      session_request = (\<lambda>method url headers data w.
         (Inl (PyError ''ClientConnectorError'' ''Cannot connect to host''), Suc w)),
      py_eval = (\<lambda>source data w. (example_eval source data, Suc w)),
      chain_run = (\<lambda>prompt data w. (Inr (PStr ''text''), Suc w)),
      json_loads = (\<lambda>text. Inl (PyError ''JSONDecodeError'' ''Expecting value'')),
      format_message = (\<lambda>template data. Inr (PStr ''message'')),
      tool_send_message = (\<lambda>channel message w. Suc w),
      session_post = (\<lambda>url data w. (Inr (), Suc w)),
      callback_send_message = (\<lambda>channel message w. Suc w)\<rparr>"

definition example_workflow :: "WorkflowNode list \<Rightarrow> Workflow" where
  "example_workflow ns =
     \<lparr>wf_id = ''wf'', wf_name = ''example'', wf_description = [], wf_nodes = ns,
      wf_status = ACTIVE, wf_created_at = 0, wf_updated_at = 0, wf_created_by = ''user'',
      wf_team_id = ''default'', wf_trigger_config = []\<rparr>"

text \<open>Trigger, then a condition with the given expression, then an output.\<close>

definition condition_nodes :: "string \<Rightarrow> WorkflowNode list" where
  "condition_nodes expr =
     [example_node ''T'' TRIGGER [''C''],
      (example_node ''C'' CONDITION [''O''])\<lparr>config := [(''condition'', PStr expr)]\<rparr>,
      example_node ''O'' OUTPUT []]"

text \<open>Trigger, then an HTTP action, then an output.\<close>

definition http_nodes :: "WorkflowNode list" where
  "http_nodes =
     [example_node ''T'' TRIGGER [''H''],
      (example_node ''H'' ACTION [''O''])
        \<lparr>config := [(''action_type'', PStr ''http_request''), (''url'', PStr ''http://host/'')]\<rparr>,
      example_node ''O'' OUTPUT []]"



text \<open>A transforming action without a script.\<close>

definition default_transform_node :: WorkflowNode where
  "default_transform_node =
     (example_node ''D'' ACTION [])\<lparr>config := [(''action_type'', PStr ''data_transform'')]\<rparr>"

text \<open>A workflow with an action and an output, and no trigger.\<close>

definition no_trigger_nodes :: "WorkflowNode list" where
  "no_trigger_nodes = [example_node ''A'' ACTION [''O''], example_node ''O'' OUTPUT []]"

text \<open>A registry with one completed execution, put there by hand.\<close>

definition completed_info :: ExecutionInfo where
  "completed_info =
     \<lparr>exec_workflow_id = ''wf'', exec_status = ''completed'', exec_started_at = 1,
      exec_channel_id = None, exec_completed_at = Some 2, exec_error = None\<rparr>"

definition example_registry :: "string \<rightharpoonup> ExecutionInfo" where
  "example_registry = [''run-0'' \<mapsto> completed_info]"

subsection \<open>Invariants of the traversal\<close>

lemma traverse_visited_eq:
  "fst st = set (snd st) \<Longrightarrow>
     fst (traverse nodes st nid) = set (snd (traverse nodes st nid))"
  "fst st = set (snd st) \<Longrightarrow>
     fst (traverse_connections nodes st cs) = set (snd (traverse_connections nodes st cs))"
proof (induction nodes st nid and nodes st cs rule: traverse_traverse_connections.induct)
  case (1 nodes visited path nid)
  show ?case
  proof (cases "nid \<in> visited")
    case True
    with "1.prems" show ?thesis by (simp add: traverse.simps)
  next
    case False
    show ?thesis
    proof (cases "find_node nodes nid")
      case None
      with False "1.prems" show ?thesis by (simp add: traverse.simps)
    next
      case (Some node)
      have "fst (insert nid visited, path @ [nid]) = set (snd (insert nid visited, path @ [nid]))"
        using "1.prems" by auto
      from "1.IH" [OF False Some this] False Some show ?thesis
        by (simp add: traverse.simps)
    qed
  qed
next
  case (2 nodes st)
  then show ?case by simp
next
  case (3 nodes st c cs)
  then show ?case by simp
qed

lemma traverse_distinct:
  "fst st = set (snd st) \<and> distinct (snd st) \<Longrightarrow> distinct (snd (traverse nodes st nid))"
  "fst st = set (snd st) \<and> distinct (snd st) \<Longrightarrow>
     distinct (snd (traverse_connections nodes st cs))"
proof (induction nodes st nid and nodes st cs rule: traverse_traverse_connections.induct)
  case (1 nodes visited path nid)
  show ?case
  proof (cases "nid \<in> visited")
    case True
    with "1.prems" show ?thesis by (simp add: traverse.simps)
  next
    case False
    show ?thesis
    proof (cases "find_node nodes nid")
      case None
      with False "1.prems" show ?thesis by (simp add: traverse.simps)
    next
      case (Some node)
      have "fst (insert nid visited, path @ [nid]) = set (snd (insert nid visited, path @ [nid])) \<and>
            distinct (snd (insert nid visited, path @ [nid]))"
        using False "1.prems" by auto
      from "1.IH" [OF False Some this] False Some show ?thesis
        by (simp add: traverse.simps)
    qed
  qed
next
  case (2 nodes st)
  then show ?case by simp
next
  case (3 nodes st c cs)
  have "fst (traverse nodes st c) = set (snd (traverse nodes st c))"
    using "3.prems" by (simp add: traverse_visited_eq)
  with 3 show ?case by simp
qed


lemma traverse_extends:
  "prefix (snd st) (snd (traverse nodes st nid))"
  "prefix (snd st) (snd (traverse_connections nodes st cs))"
proof (induction nodes st nid and nodes st cs rule: traverse_traverse_connections.induct)
  case (1 nodes visited path nid)
  then show ?case
    by (auto simp: traverse.simps split: option.splits dest: append_prefixD)
next
  case (2 nodes st)
  show ?case by simp
next
  case (3 nodes st c cs)
  then show ?case using prefix_order.order_trans by auto
qed



lemma traverse_unvisited:
  assumes "nid \<notin> fst st"
  shows "\<exists>ext. snd (traverse nodes st nid) = snd st @ nid # ext"
proof (cases st)
  case (Pair visited path)
  show ?thesis
  proof (cases "find_node nodes nid")
    case None
    with assms Pair show ?thesis by (simp add: traverse.simps)
  next
    case (Some node)
    have "prefix (path @ [nid])
            (snd (traverse_connections nodes (insert nid visited, path @ [nid]) (connections node)))"
      using traverse_extends(2) [of "(insert nid visited, path @ [nid])"] by simp
    with assms Pair Some show ?thesis
      by (auto simp: traverse.simps prefix_def)
  qed
qed

lemma traverse_first_visit:
  "fst st = set (snd st) \<Longrightarrow>
     \<forall>n \<in> set (snd (traverse nodes st nid)) - set (snd st).
       \<exists>p. n \<notin> set p \<and> prefix (snd (traverse nodes (set p, p) n)) (snd (traverse nodes st nid))"
  "fst st = set (snd st) \<Longrightarrow>
     \<forall>n \<in> set (snd (traverse_connections nodes st cs)) - set (snd st).
       \<exists>p. n \<notin> set p \<and>
         prefix (snd (traverse nodes (set p, p) n)) (snd (traverse_connections nodes st cs))"
proof (induction nodes st nid and nodes st cs rule: traverse_traverse_connections.induct)
  case (1 nodes visited path nid)
  then have vp: "visited = set path" by simp
  show ?case
  proof (cases "nid \<in> visited")
    case True
    then show ?thesis by (simp add: traverse.simps)
  next
    case False
    have self: "nid \<notin> set path \<and>
        prefix (snd (traverse nodes (set path, path) nid)) (snd (traverse nodes (visited, path) nid))"
      using False vp by simp
    show ?thesis
    proof (cases "find_node nodes nid")
      case None
      with False have "traverse nodes (visited, path) nid = (insert nid visited, path @ [nid])"
        by (simp add: traverse.simps)
      with self show ?thesis by auto
    next
      case (Some node)
      let ?st0 = "(insert nid visited, path @ [nid])"
      let ?r = "traverse_connections nodes ?st0 (connections node)"
      have eq: "traverse nodes (visited, path) nid = ?r"
        using False Some by (simp add: traverse.simps)
      have inv0: "fst ?st0 = set (snd ?st0)"
        using vp by auto
      note ih = "1.IH" [OF False Some inv0]
      show ?thesis
      proof
        fix n
        assume n: "n \<in> set (snd (traverse nodes (visited, path) nid)) - set (snd (visited, path))"
        show "\<exists>p. n \<notin> set p \<and>
           prefix (snd (traverse nodes (set p, p) n)) (snd (traverse nodes (visited, path) nid))"
        proof (cases "n = nid")
          case True
          with self show ?thesis by blast
        next
          case False
          with n have "n \<in> set (snd ?r) - set (snd ?st0)"
            unfolding eq by simp
          with ih show ?thesis unfolding eq by blast
        qed
      qed
    qed
  qed
next
  case (2 nodes st)
  show ?case by simp
next
  case (3 nodes st c cs)
  let ?s1 = "traverse nodes st c"
  let ?r = "traverse_connections nodes ?s1 cs"
  have inv1: "fst ?s1 = set (snd ?s1)"
    using traverse_visited_eq(1) [OF "3.prems"] .
  have ext: "prefix (snd ?s1) (snd ?r)"
    by (rule traverse_extends)
  show ?case
  proof
    fix n
    assume "n \<in> set (snd (traverse_connections nodes st (c # cs))) - set (snd st)"
    then have n: "n \<in> set (snd ?r) - set (snd st)" by simp
    show "\<exists>p. n \<notin> set p \<and>
       prefix (snd (traverse nodes (set p, p) n)) (snd (traverse_connections nodes st (c # cs)))"
    proof (cases "n \<in> set (snd ?s1)")
      case True
      with n "3.IH"(1) [OF "3.prems"] obtain p where
        "n \<notin> set p" "prefix (snd (traverse nodes (set p, p) n)) (snd ?s1)"
        by blast
      with ext show ?thesis
        using prefix_order.order_trans by auto
    next
      case False
      with n "3.IH"(2) [OF inv1] show ?thesis by auto
    qed
  qed
qed

subsection \<open>The recursion limit\<close>

text \<open>Whatever the limited traversal returns is what the traversal computes.\<close>

lemma traverse_limited_refines:
  "traverse_limited k nodes st nid = Inr st' \<Longrightarrow> st' = traverse nodes st nid"
  "traverse_connections_limited k nodes st cs = Inr st' \<Longrightarrow>
     st' = traverse_connections nodes st cs"
proof (induction k nodes st nid and k nodes st cs arbitrary: st' and st'
    rule: traverse_limited_traverse_connections_limited.induct)
  case (1 nodes st nid)
  then show ?case by simp
next
  case (2 k nodes visited path nid)
  then show ?case
    by (auto simp: traverse.simps split: if_splits option.splits)
next
  case (3 k nodes st)
  then show ?case by simp
next
  case (4 k nodes st c cs)
  then show ?case
    by (auto split: sum.splits)
qed



lemma build_execution_path_limited_Inr:
  "build_execution_path_limited k nodes start = Inr path \<Longrightarrow>
     path = build_execution_path nodes start"
proof -
  assume "build_execution_path_limited k nodes start = Inr path"
  then obtain visited where "traverse_limited k nodes ({}, []) start = Inr (visited, path)"
    by (auto simp: build_execution_path_limited_def split: sum.splits)
  from traverse_limited_refines(1) [OF this]
  have "snd (traverse nodes ({}, []) start) = snd (visited, path)"
    by (rule arg_cong [symmetric])
  then show ?thesis
    by (simp add: build_execution_path_def)
qed



text \<open>A chain that is longer than the frames left raises.\<close>

lemma chain_id_eq: "chain_id i = chain_id j \<longleftrightarrow> i = j"
  by (simp add: chain_id_def)

lemma find_chain_node: "i < n \<Longrightarrow> find_node (chain_nodes n) (chain_id i) = Some (chain_node i)"
proof -
  assume i: "i < n"
  have id: "node_id (chain_node j) = chain_id j" for j
    by (simp add: chain_node_def example_node_def)
  have "\<exists>m < length (chain_nodes n).
      node_id (chain_nodes n ! m) = chain_id i \<and> chain_node i = chain_nodes n ! m \<and>
      (\<forall>j < m. node_id (chain_nodes n ! j) \<noteq> chain_id i)"
    using i by (intro exI [of _ i]) (auto simp: chain_nodes_def id chain_id_eq)
  then show ?thesis
    unfolding find_node_def find_Some_iff by simp
qed

lemma chain_raises:
  "k + i \<le> Suc n \<Longrightarrow> \<forall>j \<ge> i. chain_id j \<notin> visited \<Longrightarrow>
     traverse_limited k (chain_nodes n) (visited, path) (chain_id i) = Inl recursion_error"
proof (induction k arbitrary: i visited path)
  case 0
  show ?case by simp
next
  case (Suc k)
  have unvisited: "chain_id i \<notin> visited"
    using Suc.prems(2) by simp
  show ?case
  proof (cases "k = 0")
    case True
    with unvisited show ?thesis by simp
  next
    case False
    with Suc.prems(1) have "i < n" by simp
    then have found: "find_node (chain_nodes n) (chain_id i) = Some (chain_node i)"
      by (rule find_chain_node)
    have conns: "connections (chain_node i) = [chain_id (Suc i)]"
      by (simp add: chain_node_def example_node_def)
    have "\<forall>j \<ge> Suc i. chain_id j \<notin> insert (chain_id i) visited"
      using Suc.prems(2) by (auto simp: chain_id_eq)
    moreover have "k + Suc i \<le> Suc n"
      using Suc.prems(1) by simp
    ultimately have "traverse_limited k (chain_nodes n)
        (insert (chain_id i) visited, path @ [chain_id i]) (chain_id (Suc i)) =
        Inl recursion_error"
      by (rule Suc.IH [rotated])
    with unvisited False found conns show ?thesis by simp
  qed
qed

lemma chain_exceeds_limit:
  "k \<le> Suc n \<Longrightarrow>
     build_execution_path_limited k (chain_nodes n) (chain_id 0) = Inl recursion_error"
  using chain_raises [of k 0 n "{}" "[]"]
  by (simp add: build_execution_path_limited_def)

subsection \<open>Properties of the execution path\<close>

lemma traverse_limited_numeral:
  "traverse_limited (numeral v) nodes (visited, path) nid =
     (if nid \<in> visited then Inr (visited, path)
      else if pred_numeral v = 0 then Inl recursion_error
      else (case find_node nodes nid of
              None \<Rightarrow> Inr (insert nid visited, path @ [nid])
            | Some node \<Rightarrow>
                traverse_connections_limited (pred_numeral v) nodes
                  (insert nid visited, path @ [nid]) (connections node)))"
  by (simp add: numeral_eq_Suc)

lemmas example_defs = example_node_def find_node_def build_execution_path_def traverse.simps
  build_execution_path_limited_def traverse_limited_numeral

lemma precedesI: "x \<notin> set a \<Longrightarrow> y \<in> set b \<Longrightarrow> precedes x y (a @ x # b)"
proof -
  assume "x \<notin> set a" and y: "y \<in> set b"
  then have "dropWhile (\<lambda>z. z \<noteq> x) (a @ x # b) = x # b"
    by (subst dropWhile_append2) auto
  with y show ?thesis by (simp add: precedes_def)
qed

lemma build_execution_path_distinct: "distinct (build_execution_path nodes start)"
  unfolding build_execution_path_def by (rule traverse_distinct) simp

text \<open>
  Claim C4. For every node list and start id, cyclic or not, the path builder terminates
  (every chain of recursive calls from the initial call is finite: the initial call lies in
  the domain of the recursion) and no id occurs twice in the returned path; on the cycle
  \<open>A \<rightarrow> B \<rightarrow> A\<close> started at \<open>A\<close> it returns \<open>[A, B]\<close>.
\<close>

theorem build_execution_path_terminates_once:
  "traverse_traverse_connections_dom (Inl (nodes, ({}, []), start)) \<and>
   distinct (build_execution_path nodes start) \<and>
   build_execution_path cyclic_nodes ''A'' = [''A'', ''B'']"
proof (intro conjI)
  show "traverse_traverse_connections_dom (Inl (nodes, ({}, []), start))"
    using traverse_total by blast
  show "distinct (build_execution_path nodes start)"
    by (rule build_execution_path_distinct)
  show "build_execution_path cyclic_nodes ''A'' = [''A'', ''B'']"
    by (simp add: cyclic_nodes_def example_defs)
qed

theorem build_execution_path_terminates_once_witness:
  "distinct (build_execution_path cyclic_nodes ''B'') \<and>
   build_execution_path cyclic_nodes ''B'' = [''B'', ''A'']"
  using build_execution_path_terminates_once [of cyclic_nodes "''B''"]
  by (simp add: cyclic_nodes_def example_defs)





text \<open>
  Claim C5 as stated fails where the second successor is reachable through the first:
  \<open>T\<close> has the successors \<open>[A, B]\<close>, \<open>C\<close> is first reached while \<open>A\<close> is explored,
  and \<open>C\<close> does not precede \<open>B\<close> in the path.
\<close>

theorem preorder_counterexample:
  "find_node shared_successor_nodes ''T'' = Some (example_node ''T'' TRIGGER [''A'', ''B'']) \<and>
   build_execution_path shared_successor_nodes ''T'' = [''T'', ''A'', ''B'', ''C''] \<and>
   snd (traverse shared_successor_nodes ({''T''}, [''T'']) ''A'') = [''T'', ''A'', ''B'', ''C''] \<and>
   \<not> precedes ''C'' ''B'' (build_execution_path shared_successor_nodes ''T'')"
  by (simp add: shared_successor_nodes_def example_defs precedes_def)

text \<open>
  Claim C5, amended. The start id is the first element of the path. For a node \<open>n\<close> of the
  path with successor list \<open>[S1, S2]\<close>, the path is \<open>p @ [n] @ P1 @ P2 @ rest\<close>, where
  \<open>P1\<close> is what exploring \<open>S1\<close> appends after \<open>n\<close> and \<open>P2\<close> what exploring \<open>S2\<close>
  appends after that; \<open>P1\<close> starts with \<open>S1\<close> unless \<open>S1\<close> was visited before, and
  unless \<open>S2\<close> was visited before \<open>n\<close> or while \<open>S1\<close> was explored, \<open>P2\<close> starts
  with \<open>S2\<close> and every id of \<open>P1\<close> precedes \<open>S2\<close>.
\<close>

theorem build_execution_path_preorder:
  assumes "n \<in> set (build_execution_path nodes start)" and "find_node nodes n = Some node"
    and "connections node = [S1, S2]"
  shows "(\<exists>rest. build_execution_path nodes start = start # rest) \<and>
    (\<exists>p P1 P2 rest.
        build_execution_path nodes start = p @ [n] @ P1 @ P2 @ rest \<and> n \<notin> set p \<and>
        snd (traverse nodes (set (p @ [n]), p @ [n]) S1) = p @ [n] @ P1 \<and>
        snd (traverse nodes (set (p @ [n] @ P1), p @ [n] @ P1) S2) = p @ [n] @ P1 @ P2 \<and>
        (S1 \<notin> set (p @ [n]) \<longrightarrow> (\<exists>t. P1 = S1 # t)) \<and>
        (S2 \<notin> set (p @ [n] @ P1) \<longrightarrow> (\<exists>t. P2 = S2 # t) \<and> (\<forall>x \<in> set P1. precedes x S2 (build_execution_path nodes start))))"
proof
  show "\<exists>rest. build_execution_path nodes start = start # rest"
    using traverse_unvisited [of start "({}, [])" nodes]
    by (simp add: build_execution_path_def)
next
  let ?path = "build_execution_path nodes start"
  from assms(1) traverse_first_visit(1) [of "({}, [])" nodes start]
  obtain p where p: "n \<notin> set p" and pre: "prefix (snd (traverse nodes (set p, p) n)) ?path"
    by (auto simp: build_execution_path_def)
  let ?st0 = "(set (p @ [n]), p @ [n])"
  let ?st1 = "traverse nodes ?st0 S1"
  let ?st2 = "traverse nodes ?st1 S2"
  have unfold: "traverse nodes (set p, p) n = ?st2"
    using p assms(2,3) by (simp add: traverse.simps)
  obtain P1 where P1: "snd ?st1 = p @ [n] @ P1"
    using traverse_extends(1) [of ?st0 nodes S1] by (auto simp: prefix_def)
  have "fst ?st1 = set (snd ?st1)"
    by (rule traverse_visited_eq) simp
  with P1 have st1: "?st1 = (set (p @ [n] @ P1), p @ [n] @ P1)"
    by (simp add: prod_eq_iff)
  obtain P2 where P2: "snd ?st2 = p @ [n] @ P1 @ P2"
    using traverse_extends(1) [of ?st1 nodes S2] P1 by (auto simp: prefix_def)
  obtain rest where rest: "?path = p @ [n] @ P1 @ P2 @ rest"
    using pre unfolding unfold P2 by (auto simp: prefix_def)
  have h1: "\<exists>t. P1 = S1 # t" if "S1 \<notin> set (p @ [n])"
    using traverse_unvisited [of S1 ?st0 nodes] that P1 by auto
  have h2: "\<exists>t. P2 = S2 # t" if "S2 \<notin> set (p @ [n] @ P1)"
    using traverse_unvisited [of S2 ?st1 nodes] that P2 unfolding st1 by auto
  have h3: "\<forall>x \<in> set P1. precedes x S2 ?path" if "S2 \<notin> set (p @ [n] @ P1)"
  proof
    fix x assume x: "x \<in> set P1"
    then obtain u v where uv: "P1 = u @ x # v" by (auto simp: in_set_conv_decomp)
    from h2 [OF that] obtain t where t: "P2 = S2 # t" ..
    have d: "distinct ?path" by (rule build_execution_path_distinct)
    have "?path = (p @ [n] @ u) @ x # (v @ S2 # t @ rest)"
      using rest uv t by simp
    moreover from d rest uv have "x \<notin> set (p @ [n] @ u)" by auto
    ultimately show "precedes x S2 ?path"
      using precedesI [of x "p @ [n] @ u" S2 "v @ S2 # t @ rest"] by simp
  qed
  have P2': "snd (traverse nodes (set (p @ [n] @ P1), p @ [n] @ P1) S2) = p @ [n] @ P1 @ P2"
    using P2 unfolding st1 .
  from rest p P1 P2' h1 h2 h3 show "\<exists>p P1 P2 rest.
        ?path = p @ [n] @ P1 @ P2 @ rest \<and> n \<notin> set p \<and>
        snd (traverse nodes (set (p @ [n]), p @ [n]) S1) = p @ [n] @ P1 \<and>
        snd (traverse nodes (set (p @ [n] @ P1), p @ [n] @ P1) S2) = p @ [n] @ P1 @ P2 \<and>
        (S1 \<notin> set (p @ [n]) \<longrightarrow> (\<exists>t. P1 = S1 # t)) \<and>
        (S2 \<notin> set (p @ [n] @ P1) \<longrightarrow> (\<exists>t. P2 = S2 # t) \<and> (\<forall>x \<in> set P1. precedes x S2 ?path))"
    by blast
qed


theorem build_execution_path_preorder_witness:
  "(\<exists>rest. build_execution_path shared_successor_nodes ''T'' = ''T'' # rest) \<and>
    (\<exists>p P1 P2 rest.
        build_execution_path shared_successor_nodes ''T'' = p @ [''A''] @ P1 @ P2 @ rest \<and>
        ''A'' \<notin> set p \<and>
        snd (traverse shared_successor_nodes (set (p @ [''A'']), p @ [''A'']) ''B'') =
          p @ [''A''] @ P1 \<and>
        snd (traverse shared_successor_nodes (set (p @ [''A''] @ P1), p @ [''A''] @ P1) ''C'') =
          p @ [''A''] @ P1 @ P2 \<and>
        (''B'' \<notin> set (p @ [''A'']) \<longrightarrow> (\<exists>t. P1 = ''B'' # t)) \<and>
        (''C'' \<notin> set (p @ [''A''] @ P1) \<longrightarrow> (\<exists>t. P2 = ''C'' # t) \<and>
           (\<forall>x \<in> set P1. precedes x ''C'' (build_execution_path shared_successor_nodes ''T''))))"
proof -
  have 1: "''A'' \<in> set (build_execution_path shared_successor_nodes ''T'')"
    by (simp add: shared_successor_nodes_def example_defs)
  have 2: "find_node shared_successor_nodes ''A'' = Some (example_node ''A'' ACTION [''B'', ''C''])"
    by (simp add: shared_successor_nodes_def example_defs)
  have 3: "connections (example_node ''A'' ACTION [''B'', ''C'']) = [''B'', ''C'']"
    by (simp add: example_node_def)
  from build_execution_path_preorder [OF 1 2 3] show ?thesis .
qed

subsection \<open>Properties of the execution loop\<close>

lemmas run_defs = example_world_def example_eval_def example_workflow_def
  dispatch_node_def execute_action_node_def execute_condition_node_def execute_output_node_def
  execute_ai_agent_node_def execute_transform_node_def dict_get_def channel_given_def
  channel_str_def execute_workflow_def register_execution_def update_execution_def
  fail_execution_def complete_execution_def recursion_error_def

lemma run_nodes_append:
  "run_nodes env nodes channel_id (xs @ ys) s =
     (case run_nodes env nodes channel_id xs s of
        (Finished, s') \<Rightarrow> run_nodes env nodes channel_id ys s'
      | (Halted, s') \<Rightarrow> (Halted, s')
      | (Raised e, s') \<Rightarrow> (Raised e, s'))"
proof (induction xs arbitrary: s)
  case Nil
  show ?case by simp
next
  case (Cons nid xs)
  obtain d w tr where s: "s = (d, w, tr)" by (cases s)
  show ?case
    unfolding s by (simp add: Cons.IH split: option.split sum.split prod.split)
qed

lemma run_nodes_absent:
  "find_node nodes nid = None \<Longrightarrow>
     run_nodes env nodes channel_id (nid # rest) s = run_nodes env nodes channel_id rest s"
  by (cases s) simp

lemma run_nodes_filter:
  "run_nodes env nodes channel_id path s =
     run_nodes env nodes channel_id (filter (\<lambda>nid. find_node nodes nid \<noteq> None) path) s"
proof (induction path arbitrary: s)
  case Nil
  show ?case by simp
next
  case (Cons nid path)
  obtain d w tr where s: "s = (d, w, tr)" by (cases s)
  show ?case
    unfolding s by (auto simp: Cons.IH split: option.split sum.split prod.split)
qed

lemma run_nodes_trace_grows:
  "run_nodes env nodes channel_id path (d, w, tr) = (oc, d', w', tr') \<Longrightarrow>
     \<exists>ext. tr' = tr @ ext \<and> (\<forall>entry \<in> set ext. fst entry \<in> set path)"
proof (induction path arbitrary: d w tr)
  case Nil
  then show ?case by simp
next
  case (Cons nid path)
  show ?case
  proof (cases "find_node nodes nid")
    case None
    with Cons.prems have "run_nodes env nodes channel_id path (d, w, tr) = (oc, d', w', tr')"
      by simp
    from Cons.IH [OF this] show ?thesis by auto
  next
    case (Some node)
    obtain r w1 where disp: "dispatch_node env channel_id node d w = (r, w1)"
      by (cases "dispatch_node env channel_id node d w")
    show ?thesis
    proof (cases r)
      case (Inl e)
      with Cons.prems Some disp show ?thesis by auto
    next
      case (Inr cd)
      obtain c d1 where cd: "cd = (c, d1)" by (cases cd)
      show ?thesis
      proof (cases c)
        case True
        with Cons.prems Some disp Inr cd
        have "run_nodes env nodes channel_id path (d1, w1, tr @ [(nid, d, d1)]) = (oc, d', w', tr')"
          by simp
        from Cons.IH [OF this] show ?thesis by auto
      next
        case False
        with Cons.prems Some disp Inr cd show ?thesis by auto
      qed
    qed
  qed
qed




text \<open>
  Claim C10. An id of the path without a node in the node list is passed over: the loop goes
  on with the next id in the same state (same data, nothing raised, nothing dispatched), so
  the run over a path is the run over its ids that have a node.
\<close>

theorem run_nodes_skips_absent:
  "(find_node nodes nid = None \<longrightarrow>
      run_nodes env nodes channel_id (nid # rest) s = run_nodes env nodes channel_id rest s) \<and>
   ((\<forall>i \<in> set absent. find_node nodes i = None) \<longrightarrow>
      run_nodes env nodes channel_id absent s = (Finished, s)) \<and>
   run_nodes env nodes channel_id path s =
     run_nodes env nodes channel_id (filter (\<lambda>i. find_node nodes i \<noteq> None) path) s"
proof (intro conjI impI)
  assume "find_node nodes nid = None"
  then show "run_nodes env nodes channel_id (nid # rest) s = run_nodes env nodes channel_id rest s"
    by (rule run_nodes_absent)
next
  assume "\<forall>i \<in> set absent. find_node nodes i = None"
  then have "filter (\<lambda>i. find_node nodes i \<noteq> None) absent = []"
    by (induction absent) auto
  then show "run_nodes env nodes channel_id absent s = (Finished, s)"
    using run_nodes_filter [of env nodes channel_id absent s] by simp
next
  show "run_nodes env nodes channel_id path s =
     run_nodes env nodes channel_id (filter (\<lambda>i. find_node nodes i \<noteq> None) path) s"
    by (rule run_nodes_filter)
qed

theorem run_nodes_skips_absent_witness:
  "build_execution_path dangling_nodes ''A'' = [''A'', ''X''] \<and>
   find_node dangling_nodes ''X'' = None \<and>
   run_nodes example_world dangling_nodes None [''X''] (PInt 7, 0, []) = (Finished, PInt 7, 0, []) \<and>
   run_nodes example_world dangling_nodes None [''A'', ''X''] (PInt 7, 0, []) =
     (Finished, PInt 7, 0, [(''A'', PInt 7, PInt 7)])"
proof -
  have absent: "find_node dangling_nodes ''X'' = None"
    by (simp add: dangling_nodes_def example_defs)
  have "\<forall>i \<in> set [''X'']. find_node dangling_nodes i = None"
    using absent by simp
  with run_nodes_skips_absent
    [of dangling_nodes "''X''" example_world None "[]" "(PInt 7, 0, [])" "[''X'']" "[''A'', ''X'']"]
  have "run_nodes example_world dangling_nodes None [''X''] (PInt 7, 0, []) = (Finished, PInt 7, 0, [])"
    and "run_nodes example_world dangling_nodes None [''A'', ''X''] (PInt 7, 0, []) =
      run_nodes example_world dangling_nodes None
        (filter (\<lambda>i. find_node dangling_nodes i \<noteq> None) [''A'', ''X'']) (PInt 7, 0, [])"
    by blast+
  then show ?thesis
    by (simp add: dangling_nodes_def example_defs run_defs)
qed

text \<open>
  Claim C9. An action node with \<^verbatim>\<open>action_type\<close> \<^verbatim>\<open>data_transform\<close> and no
  \<^verbatim>\<open>transform_script\<close> evaluates the default text \<^verbatim>\<open>return data\<close>. Python's
  \<^verbatim>\<open>eval\<close> rejects it (a statement is not an expression: \<^verbatim>\<open>SyntaxError\<close>, an
  \<^verbatim>\<open>Exception\<close>), and the handler returns a dictionary with the key \<^verbatim>\<open>error\<close>
  and the message, not the data.
\<close>

theorem default_transform_script_is_an_error:
  assumes "dict_get (config node) ''action_type'' PNone = PStr ''data_transform''"
    and "map_of (config node) ''transform_script'' = None"
    and "py_eval env (PStr ''return data'') data w = (Inl e, w')"
  shows "(is_exception e \<longrightarrow>
           execute_action_node env node data w =
             (Inr (PDict [(''error'', PStr (exn_str e))]), w') \<and>
           dict_get [(''error'', PStr (exn_str e))] ''error'' PNone = PStr (exn_str e) \<and>
           (node_type node = ACTION \<longrightarrow>
              dispatch_node env channel_id node data w =
                (Inr (True, PDict [(''error'', PStr (exn_str e))]), w'))) \<and>
         (\<not> is_exception e \<longrightarrow> execute_action_node env node data w = (Inl e, w'))"
  using assms by (simp add: execute_action_node_def dispatch_node_def dict_get_def)

theorem default_transform_script_is_an_error_witness:
  "execute_action_node example_world default_transform_node (PInt 7) 0 =
     (Inr (PDict [(''error'', PStr ''invalid syntax (<string>, line 1)'')]), 1) \<and>
   dispatch_node example_world None default_transform_node (PInt 7) 0 =
     (Inr (True, PDict [(''error'', PStr ''invalid syntax (<string>, line 1)'')]), 1)"
proof -
  have 1: "dict_get (config default_transform_node) ''action_type'' PNone = PStr ''data_transform''"
    by (simp add: default_transform_node_def example_node_def dict_get_def)
  have 2: "map_of (config default_transform_node) ''transform_script'' = None"
    by (simp add: default_transform_node_def example_node_def)
  have 3: "py_eval example_world (PStr ''return data'') (PInt 7) 0 =
      (Inl (PyError ''SyntaxError'' ''invalid syntax (<string>, line 1)''), 1)"
    by (simp add: example_world_def example_eval_def)
  have 4: "node_type default_transform_node = ACTION"
    by (simp add: default_transform_node_def example_node_def)
  from default_transform_script_is_an_error [OF 1 2 3, of None] 4 show ?thesis
    by simp
qed

text \<open>
  Claim C3. A workflow without a trigger node: the entry is registered with status
  \<^verbatim>\<open>running\<close> first, then \<^verbatim>\<open>execute_workflow\<close> raises the
  \<^verbatim>\<open>ValueError\<close>, and the entry of the run is left in the registry with status
  \<^verbatim>\<open>error\<close> and the message of the exception, which is not empty.
\<close>

theorem no_trigger_raises_and_records_error:
  assumes "\<forall>node \<in> set (wf_nodes workflow). node_type node \<noteq> TRIGGER"
    and "uuid4 env w = (execution_id, w1)"
  shows "\<exists>execs' w'.
      execute_workflow env execs workflow trigger_data channel_id w =
        (Inl (PyError ''ValueError'' ''No trigger node found in workflow''), execs', w', []) \<and>
      register_execution env execs workflow channel_id execution_id w1 execution_id =
        Some \<lparr>exec_workflow_id = wf_id workflow, exec_status = ''running'',
              exec_started_at = utcnow env w1, exec_channel_id = channel_id,
              exec_completed_at = None, exec_error = None\<rparr> \<and>
      execs' = (register_execution env execs workflow channel_id execution_id w1)
        (execution_id \<mapsto>
           \<lparr>exec_workflow_id = wf_id workflow, exec_status = ''error'',
            exec_started_at = utcnow env w1, exec_channel_id = channel_id,
            exec_completed_at = None,
            exec_error = Some ''No trigger node found in workflow''\<rparr>) \<and>
      map_option exec_status (execs' execution_id) = Some ''error'' \<and>
      (\<exists>msg. map_option exec_error (execs' execution_id) = Some (Some msg) \<and> msg \<noteq> [])"
proof -
  from assms(1) have "find (\<lambda>node. node_type node = TRIGGER) (wf_nodes workflow) = None"
    by (simp add: find_None_iff)
  with assms(2) show ?thesis
    by (simp add: execute_workflow_def fail_execution_def register_execution_def
        update_execution_def)
qed

theorem no_trigger_raises_and_records_error_witness:
  "fst (execute_workflow example_world example_registry (example_workflow no_trigger_nodes)
          (PDict []) None 0) =
     Inl (PyError ''ValueError'' ''No trigger node found in workflow'') \<and>
   map_option exec_status
     (fst (snd (execute_workflow example_world example_registry (example_workflow no_trigger_nodes)
          (PDict []) None 0)) ''run-1'') = Some ''error''"
proof -
  have 1: "\<forall>node \<in> set (wf_nodes (example_workflow no_trigger_nodes)). node_type node \<noteq> TRIGGER"
    by (simp add: example_workflow_def no_trigger_nodes_def example_node_def)
  have 2: "uuid4 example_world 0 = (''run-1'', 1)"
    by (simp add: example_world_def)
  from no_trigger_raises_and_records_error [OF 1 2, of example_registry "PDict []" None]
  show ?thesis by auto
qed

text \<open>
  Claim C2 as stated fails where the evaluation of the condition raises what is not an
  \<^verbatim>\<open>Exception\<close>: the condition \<^verbatim>\<open>exit()\<close> raises \<^verbatim>\<open>SystemExit\<close>, no handler
  catches it, the condition handler returns nothing, \<^verbatim>\<open>execute_workflow\<close> is left by
  the exception and the entry keeps the status \<^verbatim>\<open>running\<close>.
\<close>

theorem condition_exit_counterexample:
  "find_node (condition_nodes ''exit()'') ''C'' = Some (condition_nodes ''exit()'' ! 1) \<and>
   node_type (condition_nodes ''exit()'' ! 1) = CONDITION \<and>
   py_eval example_world
     (dict_get (config (condition_nodes ''exit()'' ! 1)) ''condition'' (PStr ''True''))
     (PDict []) 1 = (Inl (PyBaseException ''SystemExit'' ''None''), 2) \<and>
   execute_condition_node example_world (condition_nodes ''exit()'' ! 1) (PDict []) 1 =
     (Inl (PyBaseException ''SystemExit'' ''None''), 2) \<and>
   (\<exists>execs'. execute_workflow example_world example_registry
        (example_workflow (condition_nodes ''exit()'')) (PDict []) None 0 =
        (Inl (PyBaseException ''SystemExit'' ''None''), execs', 2,
         [(''T'', PDict [], PDict []), (''C'', PDict [], PDict [])]) \<and>
        map_option exec_status (execs' ''run-1'') = Some ''running'')"
  by (simp add: condition_nodes_def example_defs run_defs)

text \<open>
  Claim C2, amended. When the walk reaches a condition node whose expression evaluates to a
  falsy value, or whose evaluation raises an \<^verbatim>\<open>Exception\<close>, the handler returns
  \<^verbatim>\<open>False\<close> and the loop stops there: the trace ends with the condition node, no id
  after it in the path is dispatched, and \<^verbatim>\<open>execute_workflow\<close> returns the execution
  id with the entry marked \<^verbatim>\<open>completed\<close>: nothing is raised.
\<close>

theorem false_condition_halts_the_walk:
  assumes "find (\<lambda>node. node_type node = TRIGGER) (wf_nodes workflow) = Some trigger_node"
    and "build_execution_path_limited (recursion_limit env) (wf_nodes workflow)
           (node_id trigger_node) = Inr (pre @ cid # post)"
    and "find_node (wf_nodes workflow) cid = Some c" and "node_type c = CONDITION"
    and "uuid4 env w = (execution_id, w1)"
    and "run_nodes env (wf_nodes workflow) channel_id pre (trigger_data, w1, []) =
           (Finished, d, w2, tr)"
    and "py_eval env (dict_get (config c) ''condition'' (PStr ''True'')) d w2 = (r, w3)"
    and "case r of Inl e \<Rightarrow> is_exception e | Inr v \<Rightarrow> \<not> truthy v"
  shows "execute_condition_node env c d w2 = (Inr False, w3) \<and>
    dispatch_node env channel_id c d w2 = (Inr (False, d), w3) \<and>
    run_nodes env (wf_nodes workflow) channel_id (pre @ cid # post) (trigger_data, w1, []) =
      (Halted, d, w3, tr @ [(cid, d, d)]) \<and>
    (\<exists>execs'. execute_workflow env execs workflow trigger_data channel_id w =
        (Inr execution_id, execs', w3, tr @ [(cid, d, d)]) \<and>
        map_option exec_status (execs' execution_id) = Some ''completed'') \<and>
    set post \<inter> fst ` set (tr @ [(cid, d, d)]) = {}"
proof -
  let ?nodes = "wf_nodes workflow"
  have cond: "execute_condition_node env c d w2 = (Inr False, w3)"
    using assms(7,8) by (auto simp: execute_condition_node_def split: sum.splits)
  then have disp: "dispatch_node env channel_id c d w2 = (Inr (False, d), w3)"
    using assms(4) by (simp add: dispatch_node_def)
  have step: "run_nodes env ?nodes channel_id (cid # post) (d, w2, tr) =
      (Halted, d, w3, tr @ [(cid, d, d)])"
    by (simp add: assms(3) disp)
  have run: "run_nodes env ?nodes channel_id (pre @ cid # post) (trigger_data, w1, []) =
      (Halted, d, w3, tr @ [(cid, d, d)])"
    by (simp only: run_nodes_append assms(6) prod.case outcome.case step)
  have exec: "\<exists>execs'. execute_workflow env execs workflow trigger_data channel_id w =
        (Inr execution_id, execs', w3, tr @ [(cid, d, d)]) \<and>
        map_option exec_status (execs' execution_id) = Some ''completed''"
    using assms(1,2,5) run
    by (simp add: execute_workflow_def register_execution_def update_execution_def
        complete_execution_def)
  have "pre @ cid # post = build_execution_path ?nodes (node_id trigger_node)"
    using assms(2) by (rule build_execution_path_limited_Inr)
  then have "distinct (pre @ cid # post)"
    using build_execution_path_distinct [of ?nodes "node_id trigger_node"] by simp
  moreover have "\<forall>entry \<in> set tr. fst entry \<in> set pre"
    using run_nodes_trace_grows [OF assms(6)] by simp
  ultimately have "set post \<inter> fst ` set (tr @ [(cid, d, d)]) = {}"
    by auto
  with cond disp run exec show ?thesis by simp
qed

theorem false_condition_halts_the_walk_witness:
  "execute_condition_node example_world (condition_nodes ''False'' ! 1) (PDict []) 1 =
     (Inr False, 2) \<and>
   run_nodes example_world (condition_nodes ''False'') None [''T'', ''C'', ''O''] (PDict [], 1, []) =
     (Halted, PDict [], 2, [(''T'', PDict [], PDict []), (''C'', PDict [], PDict [])]) \<and>
   (\<exists>execs'. execute_workflow example_world example_registry
        (example_workflow (condition_nodes ''False'')) (PDict []) None 0 =
        (Inr ''run-1'', execs', 2, [(''T'', PDict [], PDict []), (''C'', PDict [], PDict [])]) \<and>
        map_option exec_status (execs' ''run-1'') = Some ''completed'') \<and>
   ''O'' \<notin> fst ` set [(''T'', PDict [], PDict []), (''C'', PDict [], PDict [])]"
proof -
  let ?wf = "example_workflow (condition_nodes ''False'')"
  let ?c = "condition_nodes ''False'' ! 1"
  have 1: "find (\<lambda>node. node_type node = TRIGGER) (wf_nodes ?wf) =
      Some (example_node ''T'' TRIGGER [''C''])"
    by (simp add: example_workflow_def condition_nodes_def example_node_def)
  have 2: "build_execution_path_limited (recursion_limit example_world) (wf_nodes ?wf)
      (node_id (example_node ''T'' TRIGGER [''C''])) = Inr ([''T''] @ ''C'' # [''O''])"
    by (simp add: example_workflow_def example_world_def condition_nodes_def example_defs)
  have 3: "find_node (wf_nodes ?wf) ''C'' = Some ?c"
    by (simp add: example_workflow_def condition_nodes_def example_defs)
  have 4: "node_type ?c = CONDITION"
    by (simp add: condition_nodes_def example_node_def)
  have 5: "uuid4 example_world 0 = (''run-1'', 1)"
    by (simp add: example_world_def)
  have 6: "run_nodes example_world (wf_nodes ?wf) None [''T''] (PDict [], 1, []) =
      (Finished, PDict [], 1, [(''T'', PDict [], PDict [])])"
    by (simp add: example_workflow_def condition_nodes_def example_defs dispatch_node_def)
  have 7: "py_eval example_world (dict_get (config ?c) ''condition'' (PStr ''True'')) (PDict []) 1 =
      (Inr (PBool False), 2)"
    by (simp add: condition_nodes_def example_node_def example_world_def example_eval_def
        dict_get_def)
  have 8: "case (Inr (PBool False) :: exn + pyval) of Inl e \<Rightarrow> is_exception e | Inr v \<Rightarrow> \<not> truthy v"
    by simp
  from false_condition_halts_the_walk [OF 1 2 3 4 5 6 7 8, of example_registry]
  show ?thesis
    by (simp add: example_workflow_def)
qed

text \<open>
  The same workflow with a condition whose evaluation raises an \<^verbatim>\<open>Exception\<close>: the run
  completes, and the output node is not in the trace.
\<close>

lemma raising_condition_example:
  "(\<exists>execs'. execute_workflow example_world example_registry
        (example_workflow (condition_nodes ''1/0'')) (PDict []) None 0 =
        (Inr ''run-1'', execs', 2, [(''T'', PDict [], PDict []), (''C'', PDict [], PDict [])]) \<and>
        map_option exec_status (execs' ''run-1'') = Some ''completed'')"
  by (simp add: condition_nodes_def example_defs run_defs)






text \<open>
  A workflow whose chain is longer than the frames left: the path builder raises
  \<^verbatim>\<open>RecursionError\<close>, and the run fails with it before any node is dispatched.
\<close>

lemma deep_chain_fails_the_run:
  assumes "recursion_limit env \<le> Suc n" and "0 < n" and "uuid4 env w = (execution_id, w1)"
  shows "\<exists>execs' w'.
      execute_workflow env execs (example_workflow (chain_nodes n)) trigger_data channel_id w =
        (Inl recursion_error, execs', w', []) \<and>
      map_option exec_status (execs' execution_id) = Some ''error''"
proof -
  from assms(2) have "chain_nodes n = chain_node 0 # map chain_node [1..<n]"
    by (simp add: chain_nodes_def upt_conv_Cons)
  then have trig: "find (\<lambda>node. node_type node = TRIGGER) (chain_nodes n) = Some (chain_node 0)"
    by (simp add: chain_node_def example_node_def)
  have id0: "node_id (chain_node 0) = chain_id 0"
    by (simp add: chain_node_def example_node_def)
  from chain_exceeds_limit [OF assms(1)] trig id0 assms(3) show ?thesis
    by (simp add: execute_workflow_def example_workflow_def fail_execution_def
        register_execution_def update_execution_def)
qed

text \<open>A run writes to the registry under its own execution id only.\<close>

lemma execute_workflow_other:
  assumes "fst (uuid4 env w) \<noteq> eid"
  shows "fst (snd (execute_workflow env execs workflow trigger_data channel_id w)) eid = execs eid"
proof -
  obtain new w1 where u: "uuid4 env w = (new, w1)" by (cases "uuid4 env w")
  with assms have "new \<noteq> eid" by simp
  then show ?thesis
    unfolding execute_workflow_def u
    by (auto simp: fail_execution_def complete_execution_def register_execution_def
        update_execution_def Let_def
        split: option.splits prod.splits outcome.splits sum.splits)
qed

text \<open>
  A run that is not left by an exception outside \<^verbatim>\<open>Exception\<close> leaves its own record
  with a terminal status.
\<close>

lemma execute_workflow_ends_terminal:
  assumes "uuid4 env w = (execution_id, w1)"
    and "execute_workflow env execs workflow trigger_data channel_id w = (result, execs', w', tr)"
    and "case result of Inl e \<Rightarrow> is_exception e | Inr i \<Rightarrow> True"
  shows "\<exists>r. execs' execution_id = Some r \<and>
           (exec_status r = ''completed'' \<or> exec_status r = ''error'')"
  using assms(2,3) unfolding execute_workflow_def assms(1)
  by (auto simp: fail_execution_def complete_execution_def register_execution_def
      update_execution_def Let_def
      split: option.splits prod.splits outcome.splits sum.splits if_splits)

lemma serve_other:
  assumes "eid \<notin> set (issued_ids env execs reqs w)"
  shows "fst (serve env execs reqs w) eid = execs eid"
  using assms
proof (induction reqs arbitrary: execs w)
  case Nil
  show ?case by simp
next
  case (Cons req reqs)
  show ?case
  proof (cases req)
    case (Execute workflow trigger_data channel_id)
    obtain result execs' w' tr where
      ex: "execute_workflow env execs workflow trigger_data channel_id w = (result, execs', w', tr)"
      by (cases "execute_workflow env execs workflow trigger_data channel_id w") auto
    from Cons.prems Execute ex have
      new: "fst (uuid4 env w) \<noteq> eid" and rest: "eid \<notin> set (issued_ids env execs' reqs w')"
      by auto
    have "execs' eid = execs eid"
      using execute_workflow_other [OF new, of execs workflow trigger_data channel_id] ex
      by simp
    with Cons.IH [OF rest] Execute ex show ?thesis by simp
  next
    case (Status args)
    with Cons.prems Cons.IH [of execs w] show ?thesis by simp
  qed
qed

text \<open>
  Claim C8. The record that a run of \<^verbatim>\<open>execute_workflow\<close> leaves behind has a terminal
  status (unless the run was left by an exception outside \<^verbatim>\<open>Exception\<close>), and it is
  never changed again: after any later sequence of executions and status queries in which
  \<^verbatim>\<open>uuid4\<close> does not hand out the record's id a second time, the registry holds the
  identical record for that id, and the status query gives the same answer as before.
\<close>

theorem terminal_record_is_never_mutated:
  assumes "execute_workflow env execs0 workflow trigger_data channel_id w0 =
             (result, execs, w, tr)"
    and "uuid4 env w0 = (eid, w1)"
    and "case result of Inl e \<Rightarrow> is_exception e | Inr i \<Rightarrow> True"
    and "eid \<notin> set (issued_ids env execs reqs w)"
  shows "\<exists>r. execs eid = Some r \<and>
           (exec_status r = ''completed'' \<or> exec_status r = ''error'') \<and>
           fst (serve env execs reqs w) eid = Some r \<and>
           workflow_status (fst (serve env execs reqs w)) (eid # args) =
             workflow_status execs (eid # args)"
proof -
  from execute_workflow_ends_terminal [OF assms(2,1,3)] obtain r where
    r: "execs eid = Some r" "exec_status r = ''completed'' \<or> exec_status r = ''error''"
    by blast
  have same: "fst (serve env execs reqs w) eid = execs eid"
    using assms(4) by (rule serve_other)
  then have "workflow_status (fst (serve env execs reqs w)) (eid # args) =
      workflow_status execs (eid # args)"
    by (simp add: workflow_status_def)
  with r same show ?thesis by simp
qed

theorem terminal_record_is_never_mutated_witness:
  "\<exists>execs.
     execute_workflow example_world example_registry (example_workflow no_trigger_nodes)
       (PDict []) None 0 =
       (Inl (PyError ''ValueError'' ''No trigger node found in workflow''), execs, 1, []) \<and>
     ''run-1'' \<notin> set (issued_ids example_world execs
        [Execute (example_workflow http_nodes) (PDict []) (Some ''ch''), Status [''run-1''],
         Execute (example_workflow (condition_nodes ''False'')) (PDict []) None] 1) \<and>
     (\<exists>r. execs ''run-1'' = Some r \<and> exec_status r = ''error'' \<and>
        fst (serve example_world execs
          [Execute (example_workflow http_nodes) (PDict []) (Some ''ch''), Status [''run-1''],
           Execute (example_workflow (condition_nodes ''False'')) (PDict []) None] 1) ''run-1'' =
          Some r \<and>
        workflow_status (fst (serve example_world execs
          [Execute (example_workflow http_nodes) (PDict []) (Some ''ch''), Status [''run-1''],
           Execute (example_workflow (condition_nodes ''False'')) (PDict []) None] 1)) [''run-1''] =
          ExecutionStatus ''run-1'' ''error'' 1 ''wf'' None
            (Some ''No trigger node found in workflow''))"
proof -
  let ?reqs = "[Execute (example_workflow http_nodes) (PDict []) (Some ''ch''), Status [''run-1''],
    Execute (example_workflow (condition_nodes ''False'')) (PDict []) None]"
  let ?e = "PyError ''ValueError'' ''No trigger node found in workflow''"
  let ?execs = "example_registry(''run-1'' \<mapsto>
    \<lparr>exec_workflow_id = ''wf'', exec_status = ''error'', exec_started_at = 1,
     exec_channel_id = None, exec_completed_at = None,
     exec_error = Some ''No trigger node found in workflow''\<rparr>)"
  have 1: "execute_workflow example_world example_registry (example_workflow no_trigger_nodes)
      (PDict []) None 0 = (Inl ?e, ?execs, 1, [])"
    by (simp add: no_trigger_nodes_def example_node_def run_defs)
  have 2: "uuid4 example_world 0 = (''run-1'', 1)"
    by (simp add: example_world_def)
  have 3: "case (Inl ?e :: exn + string) of Inl e \<Rightarrow> is_exception e | Inr i \<Rightarrow> True"
    by simp
  have 4: "''run-1'' \<notin> set (issued_ids example_world ?execs ?reqs 1)"
    by (simp add: http_nodes_def condition_nodes_def example_defs run_defs)
  from terminal_record_is_never_mutated [OF 1 2 3 4, of "[]"] obtain r where
    r: "?execs ''run-1'' = Some r"
      "fst (serve example_world ?execs ?reqs 1) ''run-1'' = Some r"
      "workflow_status (fst (serve example_world ?execs ?reqs 1)) [''run-1''] =
         workflow_status ?execs [''run-1'']"
    by blast
  have st: "exec_status r = ''error''"
    using r(1) by auto
  have q: "workflow_status ?execs [''run-1''] =
      ExecutionStatus ''run-1'' ''error'' 1 ''wf'' None (Some ''No trigger node found in workflow'')"
    by (simp add: workflow_status_def)
  show ?thesis
    using 1 4 r st q by (intro exI [of _ ?execs]) (simp only: simp_thms, blast)
qed

end
